theory Spec2Isabelle
  imports Complex_Main "HOL-Library.Word" "HOL-Library.Log_Nat"
begin

section \<open>Data of the websocket handler (websocket.go)\<close>

text \<open>
  Go's \<open>int64\<close> and \<open>uint64\<close> are \<open>64 word\<close>: \<open>+\<close> and \<open>-\<close> wrap, \<open>uint64\<close> is
  compared with \<open><\<close>, \<open>int64\<close> with the signed \<open>word_sless\<close> and \<open>word_sle\<close>.
  A Go \<open>error\<close> value is a message; the \<open>nil\<close> error is \<open>None\<close>.
\<close>

type_synonym int64 = "64 word"
type_synonym uint64 = "64 word"
type_synonym uint32 = "32 word"

datatype error = Error string

definition SetStateEvent :: string where
  "SetStateEvent = ''set state''"

definition SendServerLogsEvent :: string where
  "SendServerLogsEvent = ''send logs''"

definition SendCommandEvent :: string where
  "SendCommandEvent = ''send command''"

record WebsocketMessage =
  Event :: string
  Args :: "string list"
  inbound :: bool

text \<open>
  Modelled from the spec: the declaration of \<open>jwt.Payload\<close>, embedded in
  \<open>WebsocketTokenPayload\<close>, is in a library outside the repository. The token carries a
  not-before and an expiration timestamp; each is held here as the value its \<open>Unix()\<close>
  method returns (seconds since the epoch, an \<open>int64\<close>). The other registered claims of
  the payload are read nowhere in the program and are left out.
\<close>

record WebsocketTokenPayload =
  NotBefore :: int64
  ExpirationTime :: int64
  UserID :: string
  ServerUUID :: string
  Permissions :: "string list"

definition PermissionConnect :: string where
  "PermissionConnect = ''connect''"

definition PermissionSendCommand :: string where
  "PermissionSendCommand = ''send-command''"

definition PermissionSendPower :: string where
  "PermissionSendPower = ''send-power''"

text \<open>The loop of \<open>HasPermission\<close> over the permission slice, returning at the first match.\<close>

primrec has_permission_loop :: "string list \<Rightarrow> string \<Rightarrow> bool" where
  "has_permission_loop [] permission = False"
| "has_permission_loop (k # ks) permission =
     (if k = permission then True else has_permission_loop ks permission)"

definition HasPermission :: "WebsocketTokenPayload \<Rightarrow> string \<Rightarrow> bool" where
  "HasPermission wtp permission = has_permission_loop (Permissions wtp) permission"

text \<open>
  The package variable \<open>alg\<close> is \<open>nil\<close> (\<open>None\<close>) until the first call of \<open>ParseJWT\<close>
  builds it from the configured secret. \<open>jwt.Verify\<close> is the library's: it is a parameter,
  returning either its error or the decoded payload. The two calls of \<open>time.Now().Unix()\<close>
  are the two readings \<open>now1\<close> and \<open>now2\<close>.
\<close>

datatype HMACSHA = NewHS256 string

definition ParseJWT ::
  "(string \<Rightarrow> HMACSHA \<Rightarrow> error + WebsocketTokenPayload) \<Rightarrow> string \<Rightarrow> int64 \<Rightarrow> int64 \<Rightarrow>
   HMACSHA option \<Rightarrow> string \<Rightarrow> (error + WebsocketTokenPayload) \<times> HMACSHA option" where
  "ParseJWT Verify AuthenticationToken now1 now2 alg token =
     (let alg' = (case alg of None \<Rightarrow> NewHS256 AuthenticationToken | Some a \<Rightarrow> a) in
      (case Verify token alg' of
         Inl err \<Rightarrow> Inl err
       | Inr payload \<Rightarrow>
           if word_sle (now1 - NotBefore payload) (- 15) then
             Inl (Error ''jwt violates nbf'')
           else if word_sless 15 (now2 - ExpirationTime payload) then
             Inl (Error ''jwt violates exp'')
           else if \<not> HasPermission payload PermissionConnect then
             Inl (Error ''not authorized to connect to this socket'')
           else Inr payload,
       Some alg'))"

subsection \<open>The control surface and the connection\<close>

text \<open>
  The server's \<open>Environment\<close> and the socket are collaborators outside the repository.
  Each operation is a function on the state \<open>'e\<close> of the outside world, returning what
  the call returns and the state after it.
\<close>

datatype Signal = Kill | Interrupt

record 'e Environment =
  Start :: "'e \<Rightarrow> error option \<times> 'e"
  Stop :: "'e \<Rightarrow> error option \<times> 'e"
  Terminate :: "Signal \<Rightarrow> 'e \<Rightarrow> error option \<times> 'e"
  IsRunning :: "'e \<Rightarrow> (bool \<times> error option) \<times> 'e"
  Readlog :: "int \<Rightarrow> 'e \<Rightarrow> (string list \<times> error option) \<times> 'e"
  SendCommand :: "string \<Rightarrow> 'e \<Rightarrow> error option \<times> 'e"

record 'e Server =
  Uuid :: string
  Environment :: "'e Environment"

text \<open>
  \<open>Connection\<close> is the socket's \<open>WriteJSON\<close>; \<open>JWT\<close> is a pointer that may be \<open>nil\<close>, as
  the test at the head of \<open>TokenValid\<close> allows for. \<open>Server\<close> is taken as set: a handler
  is always bound to a server.
\<close>

record 'e WebsocketHandler =
  Server :: "'e Server"
  Connection :: "WebsocketMessage \<Rightarrow> 'e \<Rightarrow> error option \<times> 'e"
  JWT :: "WebsocketTokenPayload option"

definition TokenValid :: "int64 \<Rightarrow> 'e WebsocketHandler \<Rightarrow> error option" where
  "TokenValid now wsh =
     (case JWT wsh of
        None \<Rightarrow> Some (Error ''no jwt present'')
      | Some jwt \<Rightarrow>
          if word_sless 15 (now - ExpirationTime jwt) then
            Some (Error ''jwt violates nbf'')
          else if \<not> HasPermission jwt PermissionConnect then
            Some (Error ''jwt does not have connect permission'')
          else if Uuid (Server wsh) \<noteq> ServerUUID jwt then
            Some (Error ''jwt server uuid mismatch'')
          else None)"

text \<open>
  Every call that leaves the handler is recorded, in order, in the \<open>trace\<close> of the world,
  next to the state the collaborators act on.
\<close>

datatype call =
  CallStart
| CallStop
| CallTerminate Signal
| CallIsRunning
| CallReadlog int
| CallSendCommand string
| CallWriteJSON WebsocketMessage

record 'e World =
  state :: 'e
  trace :: "call list"

definition invoke :: "call \<Rightarrow> ('e \<Rightarrow> 'r \<times> 'e) \<Rightarrow> 'e World \<Rightarrow> 'r \<times> 'e World" where
  "invoke c f w =
     (case f (state w) of (r, s') \<Rightarrow> (r, \<lparr>state = s', trace = trace w @ [c]\<rparr>))"

text \<open>\<open>SendJson\<close>: one write on the connection, made while holding the handler's mutex.\<close>

definition SendJson ::
  "'e WebsocketHandler \<Rightarrow> WebsocketMessage \<Rightarrow> 'e World \<Rightarrow> error option \<times> 'e World" where
  "SendJson wsh v w = invoke (CallWriteJSON v) (Connection wsh v) w"

text \<open>
  The loop that sends the log lines; the result of each \<open>SendJson\<close> is dropped. A message
  built by the handler has the zero value \<open>False\<close> in \<open>inbound\<close>.
\<close>

primrec send_lines :: "'e WebsocketHandler \<Rightarrow> string \<Rightarrow> string list \<Rightarrow> 'e World \<Rightarrow> 'e World" where
  "send_lines wsh ev [] w = w"
| "send_lines wsh ev (line # logs) w =
     send_lines wsh ev logs
       (snd (SendJson wsh \<lparr>Event = ev, Args = [line], inbound = False\<rparr> w))"

text \<open>
  \<open>HandleInbound\<close>. \<open>ConsoleOutputEvent\<close> is a constant of the server package whose
  declaration is not among the sources, so it is a parameter; \<open>now\<close> is the clock reading
  of \<open>TokenValid\<close>. \<open>strings.Join m.Args ""\<close> is \<open>concat\<close>. Writing to the log
  (\<open>zap\<close>) changes nothing the handler reads and is left out. Once \<open>TokenValid\<close> has
  returned \<open>nil\<close> the token pointer is not \<open>nil\<close>, so the branch \<open>None\<close> under it is
  never taken; the inner \<open>switch\<close> on the joined arguments is \<open>set_state\<close>.
\<close>

definition set_state ::
  "'e WebsocketHandler \<Rightarrow> string \<Rightarrow> 'e World \<Rightarrow> error option \<times> 'e World" where
  "set_state wsh action w =
     (if action = ''start'' then invoke CallStart (Start (Environment (Server wsh))) w
      else if action = ''stop'' then invoke CallStop (Stop (Environment (Server wsh))) w
      else if action = ''restart'' then (None, w)
      else if action = ''kill'' then
        invoke (CallTerminate Kill) (Terminate (Environment (Server wsh)) Kill) w
      else (None, w))"

definition HandleInbound ::
  "string \<Rightarrow> int64 \<Rightarrow> 'e WebsocketHandler \<Rightarrow> WebsocketMessage \<Rightarrow> 'e World \<Rightarrow>
   error option \<times> 'e World" where
  "HandleInbound ConsoleOutputEvent now wsh m w =
     (if \<not> inbound m then
        (Some (Error ''cannot handle websocket message, not an inbound connection''), w)
      else case TokenValid now wsh of
        Some err \<Rightarrow> (None, w)
      | None \<Rightarrow>
          (case JWT wsh of
             None \<Rightarrow> (None, w)
           | Some jwt \<Rightarrow>
               if Event m = SetStateEvent then
                 (if \<not> HasPermission jwt PermissionSendPower then (None, w)
                  else case set_state wsh (concat (Args m)) w of
                    (Some err, w') \<Rightarrow> (Some err, w')
                  | (None, w') \<Rightarrow> (None, w'))
               else if Event m = SendServerLogsEvent then
                 (case invoke CallIsRunning (IsRunning (Environment (Server wsh))) w of
                    ((running, _), w1) \<Rightarrow>
                      if \<not> running then (None, w1)
                      else case invoke (CallReadlog (1024 * 16))
                                  (Readlog (Environment (Server wsh)) (1024 * 16)) w1 of
                        ((logs, Some err), w2) \<Rightarrow> (Some err, w2)
                      | ((logs, None), w2) \<Rightarrow>
                          (None, send_lines wsh ConsoleOutputEvent logs w2))
               else if Event m = SendCommandEvent then
                 (if \<not> HasPermission jwt PermissionSendCommand then (None, w)
                  else invoke (CallSendCommand (concat (Args m)))
                         (SendCommand (Environment (Server wsh)) (concat (Args m))) w)
               else (None, w)))"

section \<open>Floating point (\<open>float64\<close>)\<close>

text \<open>
  A \<open>float64\<close> is the rational number it denotes, an infinity or a NaN. The two zeros of
  the format are one value here: Go's \<open>==\<close> and \<open>>\<close> do not tell them apart, and the one
  operation whose result depends on the sign of a zero, a division by it, takes the zero
  as positive.
\<close>

datatype float64 = Fin rat | PosInf | NegInf | NaN

text \<open>
  Rounding to binary64, to nearest with ties to even. \<open>floor_log2 x\<close> is the exponent of
  a positive \<open>x\<close>, the \<open>e\<close> with \<open>2^e \<le> x < 2^(e+1)\<close>, found from the bit lengths of the
  numerator and the denominator. The unit in the last place of \<open>x\<close> is \<open>2^(e - 52)\<close> (53
  significant bits), with \<open>e\<close> held at \<open>-1022\<close> for the subnormal numbers; a magnitude
  that rounds to \<open>2^1024\<close> or more overflows to an infinity.
\<close>

definition floor_log2 :: "rat \<Rightarrow> int" where
  "floor_log2 x =
     (case quotient_of x of (p, q) \<Rightarrow>
        let e = bitlen p - bitlen q in if 2 powi e \<le> x then e else e - 1)"

definition round_half_even :: "rat \<Rightarrow> int" where
  "round_half_even x =
     (let f = \<lfloor>x\<rfloor>; d = x - of_int f
      in if d < 1 / 2 then f else if 1 / 2 < d then f + 1 else if even f then f else f + 1)"

definition binary64_ulp :: "rat \<Rightarrow> rat" where
  "binary64_ulp m = 2 powi (max (floor_log2 m) (- 1022) - 52)"

definition round_magnitude :: "rat \<Rightarrow> rat" where
  "round_magnitude m = of_int (round_half_even (m / binary64_ulp m)) * binary64_ulp m"

definition round_binary64 :: "rat \<Rightarrow> float64" where
  "round_binary64 x =
     (if x = 0 then Fin 0
      else let r = round_magnitude \<bar>x\<bar>
           in if 2 ^ 1024 \<le> r then (if 0 < x then PosInf else NegInf)
              else Fin (if 0 < x then r else - r))"

text \<open>The comparisons \<open><=\<close>, \<open>>\<close> and \<open>==\<close>: false whenever an operand is a NaN.\<close>

fun f64_le :: "float64 \<Rightarrow> float64 \<Rightarrow> bool" where
  "f64_le NaN _ = False"
| "f64_le _ NaN = False"
| "f64_le NegInf _ = True"
| "f64_le _ PosInf = True"
| "f64_le (Fin a) (Fin b) = (a \<le> b)"
| "f64_le (Fin a) NegInf = False"
| "f64_le PosInf NegInf = False"
| "f64_le PosInf (Fin b) = False"

fun f64_gt :: "float64 \<Rightarrow> float64 \<Rightarrow> bool" where
  "f64_gt NaN _ = False"
| "f64_gt _ NaN = False"
| "f64_gt (Fin a) (Fin b) = (b < a)"
| "f64_gt PosInf PosInf = False"
| "f64_gt PosInf _ = True"
| "f64_gt NegInf _ = False"
| "f64_gt (Fin a) PosInf = False"
| "f64_gt (Fin a) NegInf = True"

fun f64_eq :: "float64 \<Rightarrow> float64 \<Rightarrow> bool" where
  "f64_eq NaN _ = False"
| "f64_eq _ NaN = False"
| "f64_eq a b = (a = b)"

text \<open>
  Subtraction, multiplication and division: the exact result, rounded once; the
  infinities and NaN follow IEEE 754.
\<close>

fun f64_sub :: "float64 \<Rightarrow> float64 \<Rightarrow> float64" where
  "f64_sub (Fin a) (Fin b) = round_binary64 (a - b)"
| "f64_sub NaN _ = NaN"
| "f64_sub _ NaN = NaN"
| "f64_sub PosInf PosInf = NaN"
| "f64_sub NegInf NegInf = NaN"
| "f64_sub PosInf _ = PosInf"
| "f64_sub NegInf _ = NegInf"
| "f64_sub (Fin a) PosInf = NegInf"
| "f64_sub (Fin a) NegInf = PosInf"

fun f64_mul :: "float64 \<Rightarrow> float64 \<Rightarrow> float64" where
  "f64_mul (Fin a) (Fin b) = round_binary64 (a * b)"
| "f64_mul NaN _ = NaN"
| "f64_mul _ NaN = NaN"
| "f64_mul PosInf (Fin b) = (if b = 0 then NaN else if 0 < b then PosInf else NegInf)"
| "f64_mul NegInf (Fin b) = (if b = 0 then NaN else if 0 < b then NegInf else PosInf)"
| "f64_mul (Fin a) PosInf = (if a = 0 then NaN else if 0 < a then PosInf else NegInf)"
| "f64_mul (Fin a) NegInf = (if a = 0 then NaN else if 0 < a then NegInf else PosInf)"
| "f64_mul PosInf PosInf = PosInf"
| "f64_mul PosInf NegInf = NegInf"
| "f64_mul NegInf PosInf = NegInf"
| "f64_mul NegInf NegInf = PosInf"

fun f64_div :: "float64 \<Rightarrow> float64 \<Rightarrow> float64" where
  "f64_div (Fin a) (Fin b) =
     (if b = 0 then (if a = 0 then NaN else if 0 < a then PosInf else NegInf)
      else round_binary64 (a / b))"
| "f64_div NaN _ = NaN"
| "f64_div _ NaN = NaN"
| "f64_div (Fin a) PosInf = Fin 0"
| "f64_div (Fin a) NegInf = Fin 0"
| "f64_div PosInf (Fin b) = (if 0 \<le> b then PosInf else NegInf)"
| "f64_div NegInf (Fin b) = (if 0 \<le> b then NegInf else PosInf)"
| "f64_div PosInf _ = NaN"
| "f64_div NegInf _ = NaN"

text \<open>
  \<open>math.Round\<close>: the nearest integer, halves away from zero. The result of rounding a
  binary64 number this way is a binary64 number, so no second rounding takes place.
\<close>

definition round_half_away :: "rat \<Rightarrow> int" where
  "round_half_away x = (if 0 \<le> x then \<lfloor>x + 1 / 2\<rfloor> else - \<lfloor>- x + 1 / 2\<rfloor>)"

fun f64_Round :: "float64 \<Rightarrow> float64" where
  "f64_Round (Fin x) = Fin (of_int (round_half_away x))"
| "f64_Round PosInf = PosInf"
| "f64_Round NegInf = NegInf"
| "f64_Round NaN = NaN"

text \<open>The conversion \<open>float64(n)\<close> of an unsigned integer or of a length.\<close>

definition f64_of_nat :: "nat \<Rightarrow> float64" where
  "f64_of_nat n = round_binary64 (of_nat n)"

section \<open>Resource usage (server/resources.go)\<close>

text \<open>
  The anonymous struct of the field \<open>Network\<close>, then \<open>ResourceUsage\<close>. The embedded
  \<open>sync.RWMutex\<close> holds no data of the usage; the model is of one caller at a time.
\<close>

record NetworkBytes =
  RxBytes :: uint64
  TxBytes :: uint64

record ResourceUsage =
  Memory :: uint64
  MemoryLimit :: uint64
  CpuAbsolute :: float64
  Disk :: int64
  Network :: NetworkBytes

definition Empty :: "ResourceUsage \<Rightarrow> ResourceUsage" where
  "Empty ru =
     (let ru1 = ru\<lparr>Memory := 0\<rparr>;
          ru2 = ru1\<lparr>CpuAbsolute := Fin 0\<rparr>;
          ru3 = ru2\<lparr>Network := (Network ru2)\<lparr>TxBytes := 0\<rparr>\<rparr>;
          ru4 = ru3\<lparr>Network := (Network ru3)\<lparr>RxBytes := 0\<rparr>\<rparr>
      in ru4)"

text \<open>
  \<open>types.MemoryStats\<close> of the Docker API, with the two fields the code reads. Indexing a
  Go map at a missing key gives the zero value.
\<close>

record MemoryStats =
  Usage :: uint64
  Stats :: "string \<rightharpoonup> uint64"

definition map_index :: "(string \<rightharpoonup> uint64) \<Rightarrow> string \<Rightarrow> uint64" where
  "map_index m k = (case m k of None \<Rightarrow> 0 | Some v \<Rightarrow> v)"

definition CalculateDockerMemory :: "ResourceUsage \<Rightarrow> MemoryStats \<Rightarrow> uint64" where
  "CalculateDockerMemory ru stats =
     (case Stats stats ''total_inactive_file'' of
        Some v \<Rightarrow>
          if v < Usage stats then Usage stats - v
          else (let v' = map_index (Stats stats) ''inactive_file'' in
                if v' < Usage stats then Usage stats - v' else Usage stats)
      | None \<Rightarrow>
          (let v' = map_index (Stats stats) ''inactive_file'' in
           if v' < Usage stats then Usage stats - v' else Usage stats))"

text \<open>
  \<open>types.CPUStats\<close> of the Docker API, with the fields the code reads. The locals
  \<open>cpuDelta\<close>, \<open>systemDelta\<close>, \<open>cpus\<close> and \<open>percent\<close> of \<open>CalculateAbsoluteCpu\<close> are
  functions of the two samples; \<open>percent\<close> holds the only division by \<open>systemDelta\<close>,
  under the guard of the source.
\<close>

record CPUUsage =
  TotalUsage :: uint64
  PercpuUsage :: "uint64 list"

record CPUStats =
  CPUUsage :: CPUUsage
  SystemUsage :: uint64
  OnlineCPUs :: uint32

definition cpuDelta :: "CPUStats \<Rightarrow> CPUStats \<Rightarrow> float64" where
  "cpuDelta pStats stats =
     f64_sub (f64_of_nat (unat (TotalUsage (CPUUsage stats))))
             (f64_of_nat (unat (TotalUsage (CPUUsage pStats))))"

definition systemDelta :: "CPUStats \<Rightarrow> CPUStats \<Rightarrow> float64" where
  "systemDelta pStats stats =
     f64_sub (f64_of_nat (unat (SystemUsage stats))) (f64_of_nat (unat (SystemUsage pStats)))"

definition cpus :: "CPUStats \<Rightarrow> float64" where
  "cpus stats =
     (let c = f64_of_nat (unat (OnlineCPUs stats))
      in if f64_eq c (Fin 0) then f64_of_nat (length (PercpuUsage (CPUUsage stats))) else c)"

definition percent :: "CPUStats \<Rightarrow> CPUStats \<Rightarrow> float64" where
  "percent pStats stats =
     (if f64_gt (systemDelta pStats stats) (Fin 0) \<and> f64_gt (cpuDelta pStats stats) (Fin 0)
      then f64_mul (f64_mul (f64_div (cpuDelta pStats stats) (systemDelta pStats stats))
                            (cpus stats)) (Fin 100)
      else Fin 0)"

definition CalculateAbsoluteCpu :: "ResourceUsage \<Rightarrow> CPUStats \<Rightarrow> CPUStats \<Rightarrow> float64" where
  "CalculateAbsoluteCpu ru pStats stats =
     f64_div (f64_Round (f64_mul (percent pStats stats) (Fin 1000))) (Fin 1000)"

text \<open>
  Two results that are finite, not negative, in order and at most \<open>2^k\<close>: the relation
  carried through the steps of the computation in the proofs below.
\<close>

definition finite_ordered :: "nat \<Rightarrow> float64 \<Rightarrow> float64 \<Rightarrow> bool" where
  "finite_ordered k A B = (\<exists>a b. A = Fin a \<and> B = Fin b \<and> 0 \<le> a \<and> a \<le> b \<and> b \<le> 2 ^ k)"


section \<open>Sample values\<close>

text \<open>A token, a control surface, a handler bound to it and a usage record, for the examples.\<close>

definition sample_token :: WebsocketTokenPayload where
  "sample_token = \<lparr>NotBefore = 1000, ExpirationTime = 2000, UserID = ''7'',
     ServerUUID = ''srv-a'', Permissions = [''connect'', ''send-power'']\<rparr>"

definition sample_environment :: "nat Environment" where
  "sample_environment = \<lparr>
     Start = (\<lambda>s. (None, s + 1)),
     Stop = (\<lambda>s. (None, s + 2)),
     Terminate = (\<lambda>sig s. (Some (Error ''no such process''), s + 3)),
     IsRunning = (\<lambda>s. ((True, None), s)),
     Readlog = (\<lambda>n s. (([''line one'', ''line two''], None), s)),
     SendCommand = (\<lambda>c s. (None, s + 4))\<rparr>"

definition sample_handler :: "nat WebsocketHandler" where
  "sample_handler = \<lparr>
     Server = \<lparr>Uuid = ''srv-a'', Environment = sample_environment\<rparr>,
     Connection = (\<lambda>v s. (None, s + 5)),
     JWT = Some sample_token\<rparr>"

definition sample_world :: "nat World" where
  "sample_world = \<lparr>state = 0, trace = []\<rparr>"

definition sample_usage :: ResourceUsage where
  "sample_usage = \<lparr>Memory = 52428800, MemoryLimit = 1073741824, CpuAbsolute = Fin (25 / 2),
     Disk = 4096, Network = \<lparr>RxBytes = 10, TxBytes = 20\<rparr>\<rparr>"

definition sample_cpu_previous :: CPUStats where
  "sample_cpu_previous = \<lparr>CPUUsage = \<lparr>TotalUsage = 1000, PercpuUsage = [500, 500]\<rparr>,
     SystemUsage = 10000, OnlineCPUs = 0\<rparr>"

definition sample_cpu_current :: CPUStats where
  "sample_cpu_current = \<lparr>CPUUsage = \<lparr>TotalUsage = 1100, PercpuUsage = [550, 550]\<rparr>,
     SystemUsage = 10300, OnlineCPUs = 0\<rparr>"






section \<open>Tokens\<close>

lemma has_permission_loop_set: "has_permission_loop ks p = (p \<in> set ks)"
  by (induction ks) auto

lemma HasPermission_set: "HasPermission wtp p = (p \<in> set (Permissions wtp))"
  by (simp add: HasPermission_def has_permission_loop_set)

lemma sint_sub_no_overflow:
  fixes a b :: int64
  assumes "0 \<le> sint a" "0 \<le> sint b"
  shows "sint (a - b) = sint a - sint b"
proof -
  have "sint a < 2 ^ 63" "sint b < 2 ^ 63"
    using sint_lt [of a] sint_lt [of b] by simp_all
  with assms have "- (2 ^ 63) \<le> sint a - sint b" "sint a - sint b < 2 ^ 63"
    by simp_all
  then show ?thesis
    by (simp add: sint_word_ariths signed_take_bit_int_eq_self)
qed

lemma ParseJWT_expired_15_accepted:
  assumes "Verify token (case alg of None \<Rightarrow> NewHS256 secret | Some a \<Rightarrow> a) = Inr payload"
    and "\<not> word_sle (now1 - NotBefore payload) (- 15)"
    and "PermissionConnect \<in> set (Permissions payload)"
    and "ExpirationTime payload = now2 - 15"
  shows "fst (ParseJWT Verify secret now1 now2 alg token) = Inr payload"
  using assms by (simp add: ParseJWT_def HasPermission_set)

lemma ParseJWT_expired_16_rejected:
  assumes "Verify token (case alg of None \<Rightarrow> NewHS256 secret | Some a \<Rightarrow> a) = Inr payload"
    and "\<not> word_sle (now1 - NotBefore payload) (- 15)"
    and "ExpirationTime payload = now2 - 16"
  shows "fst (ParseJWT Verify secret now1 now2 alg token) = Inl (Error ''jwt violates exp'')"
  using assms by (simp add: ParseJWT_def)

lemma ParseJWT_not_before_16_rejected:
  assumes "Verify token (case alg of None \<Rightarrow> NewHS256 secret | Some a \<Rightarrow> a) = Inr payload"
    and "NotBefore payload = now1 + 16"
  shows "fst (ParseJWT Verify secret now1 now2 alg token) = Inl (Error ''jwt violates nbf'')"
  using assms by (simp add: ParseJWT_def)

lemma ParseJWT_not_before_15_rejected:
  assumes "Verify token (case alg of None \<Rightarrow> NewHS256 secret | Some a \<Rightarrow> a) = Inr payload"
    and "NotBefore payload = now1 + 15"
  shows "fst (ParseJWT Verify secret now1 now2 alg token) = Inl (Error ''jwt violates nbf'')"
  using assms by (simp add: ParseJWT_def)

lemma ParseJWT_not_before_14_accepted:
  assumes "Verify token (case alg of None \<Rightarrow> NewHS256 secret | Some a \<Rightarrow> a) = Inr payload"
    and "NotBefore payload = now1 + 14"
    and "\<not> word_sless 15 (now2 - ExpirationTime payload)"
    and "PermissionConnect \<in> set (Permissions payload)"
  shows "fst (ParseJWT Verify secret now1 now2 alg token) = Inr payload"
  using assms by (simp add: ParseJWT_def HasPermission_set)

text \<open>
  Claim C1: at parse time a token that expired exactly 15 seconds ago is accepted and one
  that expired 16 seconds ago is rejected, and the not-before check is said to be
  symmetric: not-before exactly 15 seconds ahead accepted, 16 seconds ahead rejected.
  The expiration half holds (\<open>ParseJWT_expired_15_accepted\<close>,
  \<open>ParseJWT_expired_16_rejected\<close>). The not-before test of the code is
  \<open>now - nbf \<le> -15\<close>, so the token below, with a good signature, the connect permission,
  an expiration far ahead and a not-before exactly 15 seconds after the clock reading
  1000, is rejected with \<open>jwt violates nbf\<close>.
\<close>

theorem ParseJWT_not_before_15_ahead:
  "ParseJWT
     (\<lambda>token alg. Inr \<lparr>NotBefore = 1015, ExpirationTime = 2000, UserID = ''7'',
        ServerUUID = ''srv-a'', Permissions = [''connect'']\<rparr>)
     ''secret'' 1000 1000 None ''token''
   = (Inl (Error ''jwt violates nbf''), Some (NewHS256 ''secret''))"
  by (simp add: ParseJWT_def)

lemma TokenValid_no_jwt: "JWT wsh = None \<Longrightarrow> TokenValid now wsh = Some (Error ''no jwt present'')"
  by (simp add: TokenValid_def)

text \<open>
  Claim C2: \<open>TokenValid\<close> returns an error exactly when the token is expired beyond the
  15 seconds (\<open>now - exp > 15\<close> in \<open>int64\<close>; for timestamps that are not negative this is
  the comparison of the integers), or \<open>connect\<close> is not among its permissions, or its
  server identifier is not the bound server's; the result does not depend on the
  not-before timestamp. A handler holding no token at all gets an error as well.
\<close>

theorem TokenValid_iff:
  "(JWT wsh = None \<longrightarrow> TokenValid now wsh \<noteq> None) \<and>
   (\<forall>jwt. JWT wsh = Some jwt \<longrightarrow>
      ((TokenValid now wsh \<noteq> None) =
         (word_sless 15 (now - ExpirationTime jwt) \<or>
          PermissionConnect \<notin> set (Permissions jwt) \<or>
          Uuid (Server wsh) \<noteq> ServerUUID jwt)) \<and>
      (0 \<le> sint now \<and> 0 \<le> sint (ExpirationTime jwt) \<longrightarrow>
         word_sless 15 (now - ExpirationTime jwt) = (15 < sint now - sint (ExpirationTime jwt))) \<and>
      (\<forall>nbf. TokenValid now (wsh\<lparr>JWT := Some (jwt\<lparr>NotBefore := nbf\<rparr>)\<rparr>) = TokenValid now wsh))"
  by (auto simp: TokenValid_def HasPermission_set word_sless_alt sint_sub_no_overflow)

theorem TokenValid_iff_witness:
  "JWT sample_handler = Some sample_token \<and>
   \<not> word_sless 15 (2015 - ExpirationTime sample_token) \<and>
   PermissionConnect \<in> set (Permissions sample_token) \<and>
   Uuid (Server sample_handler) = ServerUUID sample_token \<and>
   TokenValid 2015 sample_handler = None \<and>
   TokenValid 2015 (sample_handler\<lparr>JWT := Some (sample_token\<lparr>NotBefore := 9000\<rparr>)\<rparr>) = None"
proof -
  have j: "JWT sample_handler = Some sample_token"
    by (simp add: sample_handler_def)
  have c: "\<not> word_sless 15 (2015 - ExpirationTime sample_token)"
    "PermissionConnect \<in> set (Permissions sample_token)"
    "Uuid (Server sample_handler) = ServerUUID sample_token"
    by (simp_all add: sample_handler_def sample_token_def PermissionConnect_def)
  from TokenValid_iff [of sample_handler 2015] j
  have iff: "(TokenValid 2015 sample_handler \<noteq> None) =
      (word_sless 15 (2015 - ExpirationTime sample_token) \<or>
       PermissionConnect \<notin> set (Permissions sample_token) \<or>
       Uuid (Server sample_handler) \<noteq> ServerUUID sample_token)"
    and nbf: "\<forall>nbf. TokenValid 2015 (sample_handler\<lparr>JWT := Some (sample_token\<lparr>NotBefore := nbf\<rparr>)\<rparr>)
       = TokenValid 2015 sample_handler"
    by blast+
  from iff c have v: "TokenValid 2015 sample_handler = None" by blast
  from nbf v have "TokenValid 2015 (sample_handler\<lparr>JWT := Some (sample_token\<lparr>NotBefore := 9000\<rparr>)\<rparr>) = None"
    by simp
  with j c v show ?thesis by blast
qed

section \<open>Inbound messages\<close>

lemma TokenValid_None_JWT: "TokenValid now wsh = None \<Longrightarrow> \<exists>jwt. JWT wsh = Some jwt"
  by (cases "JWT wsh") (simp_all add: TokenValid_def)

text \<open>
  Claim C3: for an inbound message, when \<open>TokenValid\<close> fails, or the event is
  \<open>set state\<close> and the token lacks \<open>send-power\<close>, or the event is \<open>send command\<close> and
  the token lacks \<open>send-command\<close>, \<open>HandleInbound\<close> returns \<open>nil\<close> and the world is
  the one before the call: nothing was added to the trace of calls and the state of the
  collaborators is untouched.
\<close>

theorem HandleInbound_rejects_silently:
  assumes "inbound m"
    and "TokenValid now wsh \<noteq> None \<or>
         (Event m = SetStateEvent \<and>
            (\<exists>jwt. JWT wsh = Some jwt \<and> PermissionSendPower \<notin> set (Permissions jwt))) \<or>
         (Event m = SendCommandEvent \<and>
            (\<exists>jwt. JWT wsh = Some jwt \<and> PermissionSendCommand \<notin> set (Permissions jwt)))"
  shows "HandleInbound coe now wsh m w = (None, w)"
proof (cases "TokenValid now wsh")
  case (Some err)
  with assms(1) show ?thesis by (simp add: HandleInbound_def)
next
  case None
  with assms(2) consider
      jwt where "Event m = SetStateEvent" "JWT wsh = Some jwt"
        "\<not> HasPermission jwt PermissionSendPower"
    | jwt where "Event m = SendCommandEvent" "JWT wsh = Some jwt"
        "\<not> HasPermission jwt PermissionSendCommand"
    by (auto simp: HasPermission_set)
  then show ?thesis
  proof cases
    case 1
    with None assms(1) show ?thesis by (simp add: HandleInbound_def)
  next
    case 2
    with None assms(1) show ?thesis
      by (simp add: HandleInbound_def SetStateEvent_def SendCommandEvent_def
          SendServerLogsEvent_def)
  qed
qed

theorem HandleInbound_rejects_silently_witness:
  "HandleInbound ''console output'' 1500 sample_handler
     \<lparr>Event = ''send command'', Args = [''say '', ''hi''], inbound = True\<rparr> sample_world
   = (None, sample_world) \<and>
   HandleInbound ''console output'' 2016 sample_handler
     \<lparr>Event = ''set state'', Args = [''kill''], inbound = True\<rparr> sample_world
   = (None, sample_world)"
proof -
  let ?m = "\<lparr>Event = ''send command'', Args = [''say '', ''hi''], inbound = True\<rparr>"
  let ?k = "\<lparr>Event = ''set state'', Args = [''kill''], inbound = True\<rparr>"
  have 1: "inbound ?m" "inbound ?k" by simp_all
  have 2: "Event ?m = SendCommandEvent \<and>
      (\<exists>jwt. JWT sample_handler = Some jwt \<and> PermissionSendCommand \<notin> set (Permissions jwt))"
    by (simp add: SendCommandEvent_def sample_handler_def sample_token_def
        PermissionSendCommand_def)
  have 3: "TokenValid 2016 sample_handler \<noteq> None"
    by (simp add: TokenValid_def sample_handler_def sample_token_def)
  show ?thesis
    using HandleInbound_rejects_silently [of ?m 1500 sample_handler "''console output''" sample_world]
      HandleInbound_rejects_silently [of ?k 2016 sample_handler "''console output''" sample_world]
      1 2 3
    by blast
qed

text \<open>
  Claim C7: for an inbound \<open>set state\<close> message under a valid token holding
  \<open>send-power\<close>, the arguments joined without separator select the action: \<open>start\<close>
  calls \<open>Start\<close>, \<open>stop\<close> calls \<open>Stop\<close>, \<open>kill\<close> calls \<open>Terminate\<close> with the kill
  signal, each exactly once and nothing else, and \<open>HandleInbound\<close> returns what the
  call returned, its error included; \<open>restart\<close> and every other value make no call and
  return \<open>nil\<close>.
\<close>

theorem HandleInbound_set_state:
  assumes "inbound m" and "TokenValid now wsh = None" and "JWT wsh = Some jwt"
    and "PermissionSendPower \<in> set (Permissions jwt)" and "Event m = SetStateEvent"
  shows
    "(concat (Args m) = ''start'' \<longrightarrow>
        HandleInbound coe now wsh m w =
          (fst (Start (Environment (Server wsh)) (state w)),
           \<lparr>state = snd (Start (Environment (Server wsh)) (state w)),
            trace = trace w @ [CallStart]\<rparr>)) \<and>
     (concat (Args m) = ''stop'' \<longrightarrow>
        HandleInbound coe now wsh m w =
          (fst (Stop (Environment (Server wsh)) (state w)),
           \<lparr>state = snd (Stop (Environment (Server wsh)) (state w)),
            trace = trace w @ [CallStop]\<rparr>)) \<and>
     (concat (Args m) = ''kill'' \<longrightarrow>
        HandleInbound coe now wsh m w =
          (fst (Terminate (Environment (Server wsh)) Kill (state w)),
           \<lparr>state = snd (Terminate (Environment (Server wsh)) Kill (state w)),
            trace = trace w @ [CallTerminate Kill]\<rparr>)) \<and>
     (concat (Args m) = ''restart'' \<longrightarrow> HandleInbound coe now wsh m w = (None, w)) \<and>
     (concat (Args m) \<notin> {''start'', ''stop'', ''kill'', ''restart''} \<longrightarrow>
        HandleInbound coe now wsh m w = (None, w))"
proof -
  have h: "HandleInbound coe now wsh m w =
      (case set_state wsh (concat (Args m)) w of
         (Some err, w') \<Rightarrow> (Some err, w') | (None, w') \<Rightarrow> (None, w'))"
    using assms by (simp add: HandleInbound_def HasPermission_set)
  have e: "(case p of (Some err, w') \<Rightarrow> (Some err, w') | (None, w') \<Rightarrow> (None, w')) = p"
    for p :: "error option \<times> 'a World"
    by (cases p) (simp split: option.split)
  show ?thesis
    unfolding h e
    by (simp add: set_state_def invoke_def split: prod.split)
qed

theorem HandleInbound_set_state_witness:
  "HandleInbound ''console output'' 1500 sample_handler
     \<lparr>Event = ''set state'', Args = [''ki'', ''ll''], inbound = True\<rparr> sample_world
   = (Some (Error ''no such process''), \<lparr>state = 3, trace = [CallTerminate Kill]\<rparr>)"
proof -
  let ?k = "\<lparr>Event = ''set state'', Args = [''ki'', ''ll''], inbound = True\<rparr>"
  have 1: "inbound ?k" "Event ?k = SetStateEvent" "concat (Args ?k) = ''kill''"
    by (simp_all add: SetStateEvent_def)
  have 2: "TokenValid 1500 sample_handler = None" "JWT sample_handler = Some sample_token"
    "PermissionSendPower \<in> set (Permissions sample_token)"
    by (simp_all add: TokenValid_def sample_handler_def sample_token_def HasPermission_def
        PermissionConnect_def PermissionSendPower_def)
  from HandleInbound_set_state [OF 1(1) 2 1(2), of "''console output''" sample_world] 1(3)
  have "HandleInbound ''console output'' 1500 sample_handler ?k sample_world =
      (fst (Terminate (Environment (Server sample_handler)) Kill (state sample_world)),
       \<lparr>state = snd (Terminate (Environment (Server sample_handler)) Kill (state sample_world)),
        trace = trace sample_world @ [CallTerminate Kill]\<rparr>)"
    by blast
  then show ?thesis
    by (simp add: sample_handler_def sample_environment_def sample_world_def)
qed

text \<open>
  Claim C9: a message whose \<open>inbound\<close> flag is false is answered with an error at once,
  whatever the handler, its token and the clock are, and the world is unchanged: no call
  was made.
\<close>

theorem HandleInbound_not_inbound:
  "\<not> inbound m \<Longrightarrow>
   HandleInbound coe now wsh m w =
     (Some (Error ''cannot handle websocket message, not an inbound connection''), w)"
  by (simp add: HandleInbound_def)

theorem HandleInbound_not_inbound_witness:
  "HandleInbound ''console output'' 1500 sample_handler
     \<lparr>Event = ''set state'', Args = [''kill''], inbound = False\<rparr> sample_world
   = (Some (Error ''cannot handle websocket message, not an inbound connection''), sample_world)"
  using HandleInbound_not_inbound
    [of "\<lparr>Event = ''set state'', Args = [''kill''], inbound = False\<rparr>"]
  by simp

section \<open>Resource usage\<close>

text \<open>
  Claim C6: \<open>Empty\<close> sets the memory bytes, the absolute CPU percent and the two network
  counters to zero and leaves the disk bytes as they were, from any prior state.
\<close>

theorem Empty_zeroes:
  "Memory (Empty ru) = 0 \<and> CpuAbsolute (Empty ru) = Fin 0 \<and>
   RxBytes (Network (Empty ru)) = 0 \<and> TxBytes (Network (Empty ru)) = 0 \<and>
   Disk (Empty ru) = Disk ru"
  by (simp add: Empty_def Let_def)

text \<open>
  Claim C10: \<open>Empty\<close> leaves \<open>MemoryLimit\<close> unchanged as well as \<open>Disk\<close>: the result is
  the prior record with only the memory, the CPU and the two network counters zeroed.
\<close>

theorem Empty_frame:
  "MemoryLimit (Empty ru) = MemoryLimit ru \<and> Disk (Empty ru) = Disk ru \<and>
   Empty ru = ru\<lparr>Memory := 0, CpuAbsolute := Fin 0,
                 Network := (Network ru)\<lparr>RxBytes := 0, TxBytes := 0\<rparr>\<rparr>"
  by (simp add: Empty_def Let_def)

text \<open>
  Claim C4: \<open>CalculateDockerMemory\<close> returns the usage minus \<open>total_inactive_file\<close> when
  that key is present with a value strictly below the usage, otherwise the usage minus
  \<open>inactive_file\<close> (zero when the key is missing) when that is strictly below the usage,
  otherwise the usage. The subtraction never wraps: the result read as an integer is the
  integer difference, it is at most the usage, and it is the usage when both values are
  at least the usage.
\<close>

theorem CalculateDockerMemory_spec:
  "CalculateDockerMemory ru stats =
     (if \<exists>v. Stats stats ''total_inactive_file'' = Some v \<and> v < Usage stats
      then Usage stats - map_index (Stats stats) ''total_inactive_file''
      else if map_index (Stats stats) ''inactive_file'' < Usage stats
      then Usage stats - map_index (Stats stats) ''inactive_file''
      else Usage stats) \<and>
   uint (CalculateDockerMemory ru stats) =
     (if \<exists>v. Stats stats ''total_inactive_file'' = Some v \<and> v < Usage stats
      then uint (Usage stats) - uint (map_index (Stats stats) ''total_inactive_file'')
      else if map_index (Stats stats) ''inactive_file'' < Usage stats
      then uint (Usage stats) - uint (map_index (Stats stats) ''inactive_file'')
      else uint (Usage stats)) \<and>
   ((\<forall>v. Stats stats ''total_inactive_file'' = Some v \<longrightarrow> Usage stats \<le> v) \<and>
    Usage stats \<le> map_index (Stats stats) ''inactive_file'' \<longrightarrow>
      CalculateDockerMemory ru stats = Usage stats) \<and>
   CalculateDockerMemory ru stats \<le> Usage stats"
proof -
  have sub: "uint (a - b) = uint a - uint b" if "b < a" for a b :: uint64
    using that by (simp add: uint_sub_if' word_less_def)
  have le: "a - b \<le> a" if "b < a" for a b :: uint64
    using that by (simp add: word_sub_le)
  show ?thesis
    by (auto simp: CalculateDockerMemory_def map_index_def Let_def sub le
        split: option.splits)
qed

theorem CalculateDockerMemory_spec_witness:
  "CalculateDockerMemory sample_usage
     \<lparr>Usage = 100, Stats = [''total_inactive_file'' \<mapsto> 200, ''inactive_file'' \<mapsto> 300]\<rparr> = 100 \<and>
   CalculateDockerMemory sample_usage
     \<lparr>Usage = 100, Stats = [''total_inactive_file'' \<mapsto> 200, ''inactive_file'' \<mapsto> 30]\<rparr> = 70 \<and>
   CalculateDockerMemory sample_usage
     \<lparr>Usage = 100, Stats = [''total_inactive_file'' \<mapsto> 40, ''inactive_file'' \<mapsto> 30]\<rparr> = 60"
  using
    CalculateDockerMemory_spec [of sample_usage
      "\<lparr>Usage = 100, Stats = [''total_inactive_file'' \<mapsto> 200, ''inactive_file'' \<mapsto> 300]\<rparr>"]
    CalculateDockerMemory_spec [of sample_usage
      "\<lparr>Usage = 100, Stats = [''total_inactive_file'' \<mapsto> 200, ''inactive_file'' \<mapsto> 30]\<rparr>"]
    CalculateDockerMemory_spec [of sample_usage
      "\<lparr>Usage = 100, Stats = [''total_inactive_file'' \<mapsto> 40, ''inactive_file'' \<mapsto> 30]\<rparr>"]
  by (simp add: map_index_def)



section \<open>Rounding to binary64\<close>

lemma p2_pos: "0 < (2::rat) powi a"
  by simp

lemma p2_add: "(2::rat) powi (a + b) = 2 powi a * 2 powi b"
  by (simp add: power_int_add)

lemma p2_mono: "a \<le> b \<Longrightarrow> (2::rat) powi a \<le> 2 powi b"
  by (simp add: power_int_increasing)

lemma p2_less_imp: "(2::rat) powi a < 2 powi b \<Longrightarrow> a < b"
  using p2_mono [of b a] by (cases "a < b") simp_all

lemma p2_strict: "a < b \<Longrightarrow> (2::rat) powi a < 2 powi b"
  by (simp add: power_int_strict_increasing)

lemma p2_shift: "(2::rat) ^ n * 2 powi a = 2 powi (a + int n)"
  by (simp add: power_int_add)

lemma p2_nat: "0 \<le> a \<Longrightarrow> (2::rat) powi a = 2 ^ nat a"
  by (simp add: power_int_def)

lemma bitlen_rat_bounds:
  assumes "0 < p"
  shows "(2::rat) powi (bitlen p - 1) \<le> of_int p" and "of_int p < (2::rat) powi (bitlen p)"
proof -
  from bitlen_bounds [OF assms]
  have l: "2 ^ nat (bitlen p - 1) \<le> p" and u: "p < 2 ^ nat (bitlen p)" by simp_all
  have b: "1 \<le> bitlen p"
    using assms bitlen_eq_zero_iff [of p] bitlen_nonneg [of p] by linarith
  have "(2::rat) powi (bitlen p - 1) = of_int (2 ^ nat (bitlen p - 1))"
    using b by (simp add: p2_nat)
  also have "\<dots> \<le> of_int p" using l by (simp only: of_int_le_iff)
  finally show "(2::rat) powi (bitlen p - 1) \<le> of_int p" .
  have "(of_int p :: rat) < of_int (2 ^ nat (bitlen p))" using u by (simp only: of_int_less_iff)
  also have "\<dots> = 2 powi (bitlen p)" using b by (simp add: p2_nat)
  finally show "of_int p < (2::rat) powi (bitlen p)" .
qed

lemma floor_log2_bounds:
  assumes "0 < x"
  shows "2 powi (floor_log2 x) \<le> x" and "x < 2 powi (floor_log2 x + 1)"
proof -
  obtain p q where pq: "quotient_of x = (p, q)" by (cases "quotient_of x")
  then have q: "0 < q" and x: "x = of_int p / of_int q"
    using quotient_of_denom_pos quotient_of_div by blast+
  from assms x q have p: "0 < p"
    by (simp add: zero_less_divide_iff)
  let ?e = "bitlen p - bitlen q"
  have fl: "floor_log2 x = (if 2 powi ?e \<le> x then ?e else ?e - 1)"
    by (simp add: floor_log2_def pq Let_def)
  have qpos: "(0::rat) < of_int q" using q by simp
  have up: "x < 2 powi (?e + 1)"
  proof -
    have "of_int p < (2::rat) powi (bitlen p)" by (rule bitlen_rat_bounds [OF p])
    also have "\<dots> = 2 powi (?e + 1) * 2 powi (bitlen q - 1)"
      by (simp add: p2_add [symmetric])
    also have "\<dots> \<le> 2 powi (?e + 1) * of_int q"
      by (rule mult_left_mono [OF bitlen_rat_bounds(1) [OF q]]) simp
    finally show ?thesis using qpos by (simp add: x pos_divide_less_eq)
  qed
  have lo: "2 powi (?e - 1) \<le> x"
  proof -
    have "(2::rat) powi (?e - 1) * of_int q \<le> 2 powi (?e - 1) * 2 powi (bitlen q)"
      by (rule mult_left_mono [OF less_imp_le [OF bitlen_rat_bounds(2) [OF q]]]) simp
    also have "\<dots> = 2 powi (bitlen p - 1)"
      by (simp add: p2_add [symmetric])
    also have "\<dots> \<le> of_int p" by (rule bitlen_rat_bounds [OF p])
    finally show ?thesis using qpos by (simp add: x pos_le_divide_eq)
  qed
  show "2 powi (floor_log2 x) \<le> x" using lo by (simp add: fl)
  show "x < 2 powi (floor_log2 x + 1)" using up by (auto simp: fl)
qed

lemma floor_log2_unique:
  assumes "2 powi k \<le> x" and "x < 2 powi (k + 1)"
  shows "floor_log2 x = k"
proof -
  have x: "0 < x" using assms(1) p2_pos [of k] by linarith
  note b = floor_log2_bounds [OF x]
  have "(2::rat) powi k < 2 powi (floor_log2 x + 1)" using assms(1) b(2) by linarith
  then have 1: "k < floor_log2 x + 1" by (rule p2_less_imp)
  have "(2::rat) powi (floor_log2 x) < 2 powi (k + 1)" using assms(2) b(1) by linarith
  then have 2: "floor_log2 x < k + 1" by (rule p2_less_imp)
  from 1 2 show ?thesis by linarith
qed

lemma floor_log2_mono:
  assumes "0 < x" and "x \<le> y"
  shows "floor_log2 x \<le> floor_log2 y"
proof -
  have y: "0 < y" using assms by linarith
  have "(2::rat) powi (floor_log2 x) < 2 powi (floor_log2 y + 1)"
    using floor_log2_bounds(1) [OF assms(1)] floor_log2_bounds(2) [OF y] assms(2) by linarith
  then show ?thesis using p2_less_imp by fastforce
qed

lemma round_half_even_of_int: "round_half_even (of_int n) = n"
  by (simp add: round_half_even_def)

lemma round_half_even_bounds: "\<lfloor>x\<rfloor> \<le> round_half_even x" "round_half_even x \<le> \<lfloor>x\<rfloor> + 1"
  by (simp_all add: round_half_even_def Let_def)

lemma round_half_even_mono:
  assumes "x \<le> y"
  shows "round_half_even x \<le> round_half_even y"
proof (cases "\<lfloor>x\<rfloor> = \<lfloor>y\<rfloor>")
  case True
  with assms show ?thesis by (simp add: round_half_even_def Let_def)
next
  case False
  with assms have "\<lfloor>x\<rfloor> < \<lfloor>y\<rfloor>" using floor_mono [OF assms] by linarith
  then show ?thesis
    using round_half_even_bounds(2) [of x] round_half_even_bounds(1) [of y] by linarith
qed

lemma binary64_ulp_pos: "0 < binary64_ulp m"
  by (simp add: binary64_ulp_def)

lemma round_magnitude_nonneg:
  assumes "0 \<le> x"
  shows "0 \<le> round_magnitude x"
proof -
  have "0 \<le> x / binary64_ulp x" using assms binary64_ulp_pos [of x] by simp
  then have "round_half_even 0 \<le> round_half_even (x / binary64_ulp x)"
    by (rule round_half_even_mono)
  then have "0 \<le> round_half_even (x / binary64_ulp x)"
    using round_half_even_of_int [of 0] by simp
  then show ?thesis
    using binary64_ulp_pos [of x] by (simp add: round_magnitude_def)
qed

lemma round_magnitude_lower:
  assumes "0 < x" and "- 1022 \<le> floor_log2 x"
  shows "2 powi (floor_log2 x) \<le> round_magnitude x"
proof -
  let ?e = "floor_log2 x"
  have u: "binary64_ulp x = 2 powi (?e - 52)" using assms(2) by (simp add: binary64_ulp_def)
  have "(2::rat) ^ 52 * 2 powi (?e - 52) = 2 powi ?e"
    using p2_shift [of 52 "?e - 52"] by simp
  with floor_log2_bounds(1) [OF assms(1)] have "2 ^ 52 \<le> x / 2 powi (?e - 52)"
    by (simp add: pos_le_divide_eq)
  then have "round_half_even (of_int (2 ^ 52)) \<le> round_half_even (x / 2 powi (?e - 52))"
    by (intro round_half_even_mono) simp
  then have "2 ^ 52 \<le> round_half_even (x / 2 powi (?e - 52))"
    by (simp only: round_half_even_of_int)
  then have "(of_int (2 ^ 52) :: rat) \<le> of_int (round_half_even (x / 2 powi (?e - 52)))"
    by (simp only: of_int_le_iff)
  then have "of_int (2 ^ 52) * 2 powi (?e - 52) \<le> round_magnitude x"
    unfolding round_magnitude_def u by (intro mult_right_mono) simp_all
  moreover have "(of_int (2 ^ 52) :: rat) * 2 powi (?e - 52) = 2 powi ?e"
    using p2_shift [of 52 "?e - 52"] by simp
  ultimately show ?thesis by simp
qed

lemma round_magnitude_upper:
  assumes "0 < x"
  shows "round_magnitude x \<le> 2 powi (max (floor_log2 x) (- 1022) + 1)"
proof -
  let ?e = "max (floor_log2 x) (- 1022)"
  have u: "binary64_ulp x = 2 powi (?e - 52)" by (simp add: binary64_ulp_def)
  have "x < 2 powi (floor_log2 x + 1)" by (rule floor_log2_bounds(2) [OF assms])
  also have "\<dots> \<le> 2 powi (?e + 1)" by (rule p2_mono) simp
  also have "\<dots> = 2 ^ 53 * 2 powi (?e - 52)"
    using p2_shift [of 53 "?e - 52"] by (simp add: add.commute)
  finally have "x / 2 powi (?e - 52) \<le> 2 ^ 53" by (simp add: pos_divide_le_eq)
  then have "round_half_even (x / 2 powi (?e - 52)) \<le> round_half_even (of_int (2 ^ 53))"
    by (intro round_half_even_mono) simp
  then have "round_half_even (x / 2 powi (?e - 52)) \<le> 2 ^ 53"
    by (simp only: round_half_even_of_int)
  then have "(of_int (round_half_even (x / 2 powi (?e - 52))) :: rat) \<le> of_int (2 ^ 53)"
    by (simp only: of_int_le_iff)
  then have "round_magnitude x \<le> of_int (2 ^ 53) * 2 powi (?e - 52)"
    unfolding round_magnitude_def u by (intro mult_right_mono) simp_all
  moreover have "(of_int (2 ^ 53) :: rat) * 2 powi (?e - 52) = 2 powi (?e + 1)"
    using p2_shift [of 53 "?e - 52"] by (simp add: add.commute)
  ultimately show ?thesis by simp
qed

lemma round_magnitude_mono:
  assumes "0 < x" and "x \<le> y"
  shows "round_magnitude x \<le> round_magnitude y"
proof -
  have y: "0 < y" using assms by linarith
  let ?ex = "max (floor_log2 x) (- 1022)" and ?ey = "max (floor_log2 y) (- 1022)"
  have le: "?ex \<le> ?ey" using floor_log2_mono [OF assms] by simp
  show ?thesis
  proof (cases "?ex = ?ey")
    case True
    then have u: "binary64_ulp x = binary64_ulp y" by (simp add: binary64_ulp_def)
    have "x / binary64_ulp y \<le> y / binary64_ulp y"
      using assms(2) binary64_ulp_pos [of y] by (simp add: divide_right_mono)
    then have "round_half_even (x / binary64_ulp y) \<le> round_half_even (y / binary64_ulp y)"
      by (rule round_half_even_mono)
    then have "(of_int (round_half_even (x / binary64_ulp y)) :: rat)
        \<le> of_int (round_half_even (y / binary64_ulp y))"
      by (simp only: of_int_le_iff)
    then show ?thesis
      unfolding round_magnitude_def u
      using binary64_ulp_pos [of y] by (intro mult_right_mono) simp_all
  next
    case False
    with le have lt: "?ex < ?ey" by linarith
    then have ny: "- 1022 \<le> floor_log2 y" and ey: "?ey = floor_log2 y" by linarith+
    have "round_magnitude x \<le> 2 powi (?ex + 1)" by (rule round_magnitude_upper [OF assms(1)])
    also have "\<dots> \<le> 2 powi (floor_log2 y)" using lt ey by (intro p2_mono) linarith
    also have "\<dots> \<le> round_magnitude y" by (rule round_magnitude_lower [OF y ny])
    finally show ?thesis .
  qed
qed

lemma round_magnitude_p2:
  assumes "- 1022 \<le> k"
  shows "round_magnitude (2 powi k) = 2 powi k"
proof -
  have f: "floor_log2 (2 powi k) = k"
    by (rule floor_log2_unique) (simp_all add: p2_strict)
  have u: "binary64_ulp (2 powi k) = 2 powi (k - 52)"
    using assms by (simp add: binary64_ulp_def f)
  have d: "(2::rat) powi k / 2 powi (k - 52) = of_int (2 ^ 52)"
    using p2_shift [of 52 "k - 52"] by (simp add: nonzero_divide_eq_eq mult.commute)
  have "round_magnitude (2 powi k) = of_int (2 ^ 52) * 2 powi (k - 52)"
    unfolding round_magnitude_def u d round_half_even_of_int ..
  also have "\<dots> = 2 powi k" using p2_shift [of 52 "k - 52"] by simp
  finally show ?thesis .
qed

lemma round_binary64_mono:
  assumes "x \<le> y"
  shows "f64_le (round_binary64 x) (round_binary64 y)"
proof -
  consider "x = 0" "y = 0" | "x = 0" "0 < y" | "x < 0" "y = 0" | "x < 0" "0 < y"
    | "0 < x" "0 < y" | "x < 0" "y < 0"
    using assms by linarith
  then show ?thesis
  proof cases
    case 5
    from round_magnitude_mono [OF 5(1) assms] 5 show ?thesis
      by (simp add: round_binary64_def Let_def)
  next
    case 6
    then have "0 < - y" "- y \<le> - x" using assms by simp_all
    from round_magnitude_mono [OF this] 6 show ?thesis
      by (simp add: round_binary64_def Let_def)
  next
    case 2
    with round_magnitude_nonneg [of y] show ?thesis
      by (simp add: round_binary64_def Let_def)
  next
    case 3
    with round_magnitude_nonneg [of "- x"] show ?thesis
      by (simp add: round_binary64_def Let_def)
  next
    case 4
    with round_magnitude_nonneg [of "- x"] round_magnitude_nonneg [of y] show ?thesis
      by (simp add: round_binary64_def Let_def)
  qed (simp add: round_binary64_def)
qed

lemma round_binary64_0: "round_binary64 0 = Fin 0"
  by (simp add: round_binary64_def)

lemma round_binary64_neg: "round_binary64 x = Fin r \<Longrightarrow> round_binary64 (- x) = Fin (- r)"
  by (auto simp: round_binary64_def Let_def split: if_splits)

lemma round_binary64_p2:
  assumes "k \<le> 1023"
  shows "round_binary64 (2 ^ k) = Fin (2 ^ k)"
proof -
  have "round_magnitude (2 powi int k) = 2 powi int k"
    by (rule round_magnitude_p2) simp
  then have m: "round_magnitude (2 ^ k) = 2 ^ k" by simp
  have "(2::rat) ^ k < 2 ^ 1024"
    using assms by (intro power_strict_increasing) simp_all
  then show ?thesis
    by (simp add: round_binary64_def m Let_def del: power_strict_increasing_iff)
qed

lemma finite_ordered_round:
  assumes "0 \<le> x" and "x \<le> y" and "y \<le> 2 ^ k" and "k \<le> 1023"
  shows "finite_ordered k (round_binary64 x) (round_binary64 y)"
proof -
  have 1: "f64_le (Fin 0) (round_binary64 x)"
    using round_binary64_mono [OF assms(1)] by (simp add: round_binary64_0)
  have 2: "f64_le (round_binary64 x) (round_binary64 y)"
    by (rule round_binary64_mono [OF assms(2)])
  have 3: "f64_le (round_binary64 y) (Fin (2 ^ k))"
    using round_binary64_mono [OF assms(3)] by (simp add: round_binary64_p2 [OF assms(4)])
  from 3 obtain b where b: "round_binary64 y = Fin b" "b \<le> 2 ^ k"
    using 1 2 by (cases "round_binary64 y"; cases "round_binary64 x") simp_all
  from 1 2 b obtain a where a: "round_binary64 x = Fin a" "0 \<le> a" "a \<le> b"
    by (cases "round_binary64 x") simp_all
  from a b show ?thesis by (simp add: finite_ordered_def)
qed



lemma round_half_away_of_int: "round_half_away (of_int n) = n"
proof -
  have "\<lfloor>(of_int m :: rat) + 1 / 2\<rfloor> = m" for m by linarith
  from this [of n] this [of "- n"] show ?thesis
    by (simp add: round_half_away_def)
qed

lemma floor_log2_ge_0:
  assumes "1 \<le> x"
  shows "0 \<le> floor_log2 x"
proof -
  have "floor_log2 1 = 0" by (rule floor_log2_unique) simp_all
  with floor_log2_mono [of 1 x] assms show ?thesis by simp
qed

lemma round_magnitude_exact:
  assumes "1 \<le> n" and "floor_log2 (of_int n) \<le> 52"
  shows "round_magnitude (of_int n) = of_int n"
proof -
  let ?x = "of_int n :: rat"
  let ?e = "floor_log2 ?x"
  have e: "0 \<le> ?e" using assms(1) by (intro floor_log2_ge_0) simp
  then have u: "binary64_ulp ?x = 2 powi (?e - 52)" by (simp add: binary64_ulp_def)
  define j where "j = nat (52 - ?e)"
  have one: "(2::rat) ^ j * 2 powi (?e - 52) = 1"
    using p2_shift [of j "?e - 52"] assms(2) by (simp add: j_def)
  then have "?x / 2 powi (?e - 52) = ?x * 2 ^ j"
    by (simp add: divide_eq_eq mult.assoc)
  also have "\<dots> = of_int (n * 2 ^ j)" by simp
  finally have q: "?x / 2 powi (?e - 52) = of_int (n * 2 ^ j)" .
  have "round_magnitude ?x = of_int (n * 2 ^ j) * 2 powi (?e - 52)"
    unfolding round_magnitude_def u q round_half_even_of_int ..
  also have "\<dots> = ?x * (2 ^ j * 2 powi (?e - 52))" by simp
  also have "\<dots> = ?x" by (simp only: one mult_1_right)
  finally show ?thesis .
qed


lemma round_magnitude_of_int:
  assumes "1 \<le> n"
  shows "\<exists>m. round_magnitude (of_int n) = of_int m"
proof (cases "floor_log2 (of_int n :: rat) \<le> 52")
  case True
  from round_magnitude_exact [OF assms True] show ?thesis ..
next
  case False
  let ?x = "of_int n :: rat"
  let ?e = "floor_log2 ?x"
  from False have u: "binary64_ulp ?x = 2 powi (?e - 52)" by (simp add: binary64_ulp_def)
  from False have "(2::rat) powi (?e - 52) = of_int (2 ^ nat (?e - 52))" by (simp add: p2_nat)
  then have "round_magnitude ?x =
      of_int (round_half_even (?x / binary64_ulp ?x) * 2 ^ nat (?e - 52))"
    by (simp add: round_magnitude_def u)
  then show ?thesis ..
qed

lemma round_binary64_of_int:
  assumes "\<bar>n\<bar> \<le> 2 ^ k" and "k \<le> 1023"
  shows "\<exists>m. round_binary64 (of_int n) = Fin (of_int m) \<and> \<bar>m\<bar> \<le> 2 ^ k \<and>
             (0 \<le> n \<longrightarrow> 0 \<le> m) \<and> (n \<le> 0 \<longrightarrow> m \<le> 0)"
proof -
  have pos: "\<exists>m. round_binary64 (of_int i) = Fin (of_int m) \<and> 0 \<le> m \<and> m \<le> 2 ^ k"
    if i: "1 \<le> i" "i \<le> 2 ^ k" for i
  proof -
    have "(0::rat) \<le> of_int i" "(of_int i :: rat) \<le> 2 ^ k"
      using i of_int_le_iff [of i "2 ^ k", where ?'a = rat] by simp_all
    from finite_ordered_round [OF this(1) order_refl this(2) assms(2)]
    obtain r where r: "round_binary64 (of_int i) = Fin r" "0 \<le> r" "r \<le> 2 ^ k"
      by (auto simp: finite_ordered_def)
    from round_magnitude_of_int [OF i(1)] obtain m where
      m: "round_magnitude (of_int i) = of_int m" ..
    have ai: "\<bar>of_int i :: rat\<bar> = of_int i" using i by simp
    from r(1) i(1) have "r = of_int m"
      by (simp add: round_binary64_def Let_def ai m split: if_splits)
    with r have "round_binary64 (of_int i) = Fin (of_int m)" "0 \<le> m" "m \<le> 2 ^ k"
      using of_int_le_iff [of m "2 ^ k", where ?'a = rat] by simp_all
    then show ?thesis by blast
  qed
  consider "n = 0" | "1 \<le> n" | "1 \<le> - n" by linarith
  then show ?thesis
  proof cases
    case 1
    then have "round_binary64 (of_int n) = Fin (of_int 0)" by (simp add: round_binary64_0)
    then show ?thesis by (intro exI [of _ 0]) simp
  next
    case 2
    with assms(1) have "n \<le> 2 ^ k" by simp
    from pos [OF 2 this] 2 show ?thesis by auto
  next
    case 3
    with assms(1) have "- n \<le> 2 ^ k" by simp
    from pos [OF 3 this] obtain m where
      m: "round_binary64 (of_int (- n)) = Fin (of_int m)" "0 \<le> m" "m \<le> 2 ^ k" by blast
    from round_binary64_neg [OF m(1)] have "round_binary64 (of_int n) = Fin (of_int (- m))"
      by simp
    with m 3 show ?thesis by (intro exI [of _ "- m"]) simp
  qed
qed

lemma f64_of_nat_int:
  assumes "n \<le> 2 ^ k" and "k \<le> 1023"
  shows "\<exists>m. f64_of_nat n = Fin (of_int m) \<and> 0 \<le> m \<and> m \<le> 2 ^ k"
proof -
  have "\<bar>int n\<bar> \<le> 2 ^ k" using assms(1) of_nat_le_iff [of n "2 ^ k", where ?'a = int] by simp
  from round_binary64_of_int [OF this assms(2)] show ?thesis
    by (auto simp: f64_of_nat_def)
qed

lemma f64_of_nat_mono: "a \<le> b \<Longrightarrow> f64_le (f64_of_nat a) (f64_of_nat b)"
  unfolding f64_of_nat_def by (rule round_binary64_mono) simp

lemma f64_delta:
  fixes a b :: uint64
  shows "\<exists>m. f64_sub (f64_of_nat (unat a)) (f64_of_nat (unat b)) = Fin (of_int m) \<and>
             \<bar>m\<bar> \<le> 2 ^ 64 \<and> (a \<le> b \<longrightarrow> m \<le> 0)"
proof -
  have "unat a \<le> 2 ^ 64" "unat b \<le> 2 ^ 64"
    using unsigned_less [of a, where ?'a = nat] unsigned_less [of b, where ?'a = nat] by simp_all
  from f64_of_nat_int [OF this(1)] f64_of_nat_int [OF this(2)]
  obtain i j where i: "f64_of_nat (unat a) = Fin (of_int i)" "0 \<le> i" "i \<le> 2 ^ 64"
    and j: "f64_of_nat (unat b) = Fin (of_int j)" "0 \<le> j" "j \<le> 2 ^ 64"
    by auto
  have "\<bar>i - j\<bar> \<le> 2 ^ 64" using i j by linarith
  from round_binary64_of_int [OF this]
  obtain m where m: "round_binary64 (of_int (i - j)) = Fin (of_int m)" "\<bar>m\<bar> \<le> 2 ^ 64"
    "i - j \<le> 0 \<longrightarrow> m \<le> 0" by auto
  have "i \<le> j" if "a \<le> b"
  proof -
    from that have "unat a \<le> unat b" by (simp add: word_le_nat_alt)
    from f64_of_nat_mono [OF this] show ?thesis by (simp add: i j)
  qed
  with m have "a \<le> b \<longrightarrow> m \<le> 0" by simp
  moreover have "f64_sub (f64_of_nat (unat a)) (f64_of_nat (unat b)) = Fin (of_int m)"
    using m(1) by (simp add: i j)
  ultimately show ?thesis using m(2) by blast
qed




section \<open>Absolute CPU usage\<close>

lemma f64_le_0_not_gt: "f64_le x (Fin 0) \<Longrightarrow> \<not> f64_gt x (Fin 0)"
  by (cases x) simp_all

lemma round_half_away_0: "round_half_away 0 = 0"
  using round_half_away_of_int [of 0] by simp

lemma zero_percent_result:
  "f64_div (f64_Round (f64_mul (Fin 0) (Fin 1000))) (Fin 1000) = Fin 0"
  by (simp add: round_binary64_0 round_half_away_0)

lemma delta_not_positive:
  fixes a b :: uint64
  assumes "a \<le> b"
  shows "\<not> f64_gt (f64_sub (f64_of_nat (unat a)) (f64_of_nat (unat b))) (Fin 0)"
proof -
  from f64_delta [of a b] assms obtain m where
    "f64_sub (f64_of_nat (unat a)) (f64_of_nat (unat b)) = Fin (of_int m)" "m \<le> 0" by blast
  then show ?thesis by simp
qed

text \<open>
  Claim C5: whenever the CPU usage delta or the system usage delta is at most zero,
  \<open>CalculateAbsoluteCpu\<close> returns exactly 0. This holds for the deltas as the counters
  give them (the current counter is not above the previous one) and for the deltas as the
  code computes them in \<open>float64\<close>; in each case the guard of the branch that divides by
  the system delta is false, so \<open>percent\<close> is the constant 0 and no division by the
  system delta takes place.
\<close>

theorem CalculateAbsoluteCpu_zero:
  "(TotalUsage (CPUUsage stats) \<le> TotalUsage (CPUUsage pStats) \<or>
    SystemUsage stats \<le> SystemUsage pStats \<or>
    f64_le (cpuDelta pStats stats) (Fin 0) \<or>
    f64_le (systemDelta pStats stats) (Fin 0) \<longrightarrow>
      \<not> (f64_gt (systemDelta pStats stats) (Fin 0) \<and> f64_gt (cpuDelta pStats stats) (Fin 0)) \<and>
      percent pStats stats = Fin 0 \<and>
      CalculateAbsoluteCpu ru pStats stats = Fin 0)"
proof
  assume h: "TotalUsage (CPUUsage stats) \<le> TotalUsage (CPUUsage pStats) \<or>
    SystemUsage stats \<le> SystemUsage pStats \<or>
    f64_le (cpuDelta pStats stats) (Fin 0) \<or>
    f64_le (systemDelta pStats stats) (Fin 0)"
  have g: "\<not> (f64_gt (systemDelta pStats stats) (Fin 0) \<and> f64_gt (cpuDelta pStats stats) (Fin 0))"
    using h delta_not_positive [of "TotalUsage (CPUUsage stats)" "TotalUsage (CPUUsage pStats)"]
      delta_not_positive [of "SystemUsage stats" "SystemUsage pStats"]
      f64_le_0_not_gt [of "cpuDelta pStats stats"] f64_le_0_not_gt [of "systemDelta pStats stats"]
    unfolding cpuDelta_def systemDelta_def by blast
  then have p: "percent pStats stats = Fin 0" by (auto simp: percent_def)
  have "CalculateAbsoluteCpu ru pStats stats = Fin 0"
    unfolding CalculateAbsoluteCpu_def p by (rule zero_percent_result)
  with g p show "\<not> (f64_gt (systemDelta pStats stats) (Fin 0) \<and>
      f64_gt (cpuDelta pStats stats) (Fin 0)) \<and>
    percent pStats stats = Fin 0 \<and> CalculateAbsoluteCpu ru pStats stats = Fin 0"
    by blast
qed

theorem CalculateAbsoluteCpu_zero_witness:
  "TotalUsage (CPUUsage sample_cpu_previous) \<le> TotalUsage (CPUUsage sample_cpu_current) \<and>
   SystemUsage sample_cpu_previous \<le> SystemUsage sample_cpu_current \<and>
   CalculateAbsoluteCpu sample_usage sample_cpu_current sample_cpu_previous = Fin 0"
proof -
  have h: "TotalUsage (CPUUsage sample_cpu_previous) \<le> TotalUsage (CPUUsage sample_cpu_current)"
    "SystemUsage sample_cpu_previous \<le> SystemUsage sample_cpu_current"
    by (simp_all add: sample_cpu_previous_def sample_cpu_current_def)
  with CalculateAbsoluteCpu_zero [of sample_cpu_previous sample_cpu_current sample_usage]
  show ?thesis by blast
qed


















end
